theory Spec2Isabelle
  imports Main "HOL-Library.Word"
begin

section \<open>JavaScript values and strings\<close>

text \<open>
  The extension is JavaScript. Strings are modelled as HOL strings: the strings the code
  inspects character by character are URLs, data URLs and error messages, which are ASCII.
  A thrown \<open>Error\<close> is modelled by its \<open>message\<close>, the only field the code
  reads; a function that may throw (or an async function whose promise may reject) returns
  \<open>string + 'a\<close>, with \<open>Inl\<close> the message of the error.
  Values that cross a message channel or come out of \<open>JSON.parse\<close> are \<open>jsval\<close>;
  numbers are restricted to integers.
\<close>

datatype jsval =
    JUndefined
  | JNull
  | JBool bool
  | JNum int
  | JStr string
  | JArr "jsval list"
  | JObj "(string \<times> jsval) list"

text \<open>Decimal rendering of a non-negative integer, as a template literal prints it.\<close>

definition digit10 :: "nat \<Rightarrow> char" where
  "digit10 d = ''0123456789'' ! d"

function show_nat :: "nat \<Rightarrow> string" where
  "show_nat n = (if n < 10 then [digit10 n] else show_nat (n div 10) @ [digit10 (n mod 10)])"
  by pat_completeness auto
termination
  by (relation "measure id") auto

declare show_nat.simps [simp del]

definition show_int :: "int \<Rightarrow> string" where
  "show_int i = (if i < 0 then CHR ''-'' # show_nat (nat (- i)) else show_nat (nat i))"

text \<open>\<open>String.prototype.startsWith\<close> and \<open>String.prototype.includes\<close>.\<close>

fun startsWith :: "string \<Rightarrow> string \<Rightarrow> bool" where
  "startsWith s [] = True"
| "startsWith [] (p # ps) = False"
| "startsWith (c # cs) (p # ps) = (c = p \<and> startsWith cs ps)"

fun includes_str :: "string \<Rightarrow> string \<Rightarrow> bool" where
  "includes_str [] sub = (sub = [])"
| "includes_str (c # cs) sub = (startsWith (c # cs) sub \<or> includes_str cs sub)"

text \<open>The \<open>!v\<close> test: the falsy values are undefined, null, false, 0 and the empty string.\<close>

fun truthy :: "jsval \<Rightarrow> bool" where
  "truthy JUndefined = False"
| "truthy JNull = False"
| "truthy (JBool b) = b"
| "truthy (JNum n) = (n \<noteq> 0)"
| "truthy (JStr s) = (s \<noteq> [])"
| "truthy (JArr vs) = True"
| "truthy (JObj kvs) = True"

text \<open>
  Property read \<open>v.k\<close> for a data property \<open>k\<close>: a \<open>TypeError\<close> on null and
  undefined, the field of an object, \<open>undefined\<close> where the field is absent and on
  primitives and arrays (the code reads no property that a primitive or an array has).
\<close>

fun get_prop :: "jsval \<Rightarrow> string \<Rightarrow> string + jsval" where
  "get_prop JUndefined k = Inl (''can't access property '' @ k @ '' of undefined'')"
| "get_prop JNull k = Inl (''can't access property '' @ k @ '' of null'')"
| "get_prop (JObj kvs) k = Inr (case map_of kvs k of None \<Rightarrow> JUndefined | Some v \<Rightarrow> v)"
| "get_prop v k = Inr JUndefined"

text \<open>
  \<open>ToString\<close>, as a template literal and the \<open>Error\<close> constructor apply it. It can
  throw, so the result is a sum.
  \<^item> An integer of magnitude up to \<open>2^53\<close> prints in decimal; how the engine prints a
    larger number (rounded, or in exponent form) is the parameter \<open>num\<close>.
  \<^item> An array joins the strings of its elements with commas, \<open>null\<close> and
    \<open>undefined\<close> giving the empty string; the first element that throws makes the
    whole conversion throw.
  \<^item> A plain object prints as \<open>[object Object]\<close> through the inherited
    \<open>toString\<close>. An object with an own property \<open>toString\<close> hides the inherited
    method; the values of \<open>jsval\<close> are data, never functions, so that property is not
    callable, \<open>valueOf\<close> (own and not callable, or inherited and returning the object)
    gives no primitive either, and the conversion throws a \<open>TypeError\<close>.
\<close>

fun join_comma :: "string list \<Rightarrow> string" where
  "join_comma [] = []"
| "join_comma [s] = s"
| "join_comma (s # t # ss) = s @ '','' @ join_comma (t # ss)"

fun first_error :: "(string + string) list \<Rightarrow> string + string list" where
  "first_error [] = Inr []"
| "first_error (Inl e # rs) = Inl e"
| "first_error (Inr s # rs) = (case first_error rs of Inl e \<Rightarrow> Inl e | Inr ss \<Rightarrow> Inr (s # ss))"

fun to_string :: "(int \<Rightarrow> string) \<Rightarrow> jsval \<Rightarrow> string + string" where
  "to_string num JUndefined = Inr ''undefined''"
| "to_string num JNull = Inr ''null''"
| "to_string num (JBool b) = Inr (if b then ''true'' else ''false'')"
| "to_string num (JNum n) = Inr (if \<bar>n\<bar> \<le> 2 ^ 53 then show_int n else num n)"
| "to_string num (JStr s) = Inr s"
| "to_string num (JArr vs) =
     (case first_error
             (map (\<lambda>v. if v = JUndefined \<or> v = JNull then Inr [] else to_string num v) vs) of
        Inl e \<Rightarrow> Inl e
      | Inr ss \<Rightarrow> Inr (join_comma ss))"
| "to_string num (JObj kvs) =
     (if map_of kvs ''toString'' \<noteq> None then Inl ''can't convert object to string''
      else Inr ''[object Object]'')"

section \<open>State manager: ProcessedImageTracker (content/stateManager.js)\<close>

text \<open>
  An \<open>HTMLImageElement\<close>: \<open>elem\<close> is the identity of the DOM node (the key of the
  \<open>WeakMap\<close>), the other fields are the properties the code reads and writes.
\<close>

record image =
  elem :: nat
  src :: string
  naturalWidth :: nat
  naturalHeight :: nat
  alt :: string
  title :: string

record tracker =
  processedImages :: "nat \<rightharpoonup> (string \<times> nat)"
  processedHashes :: "string set"
  inFlight :: "string set"

definition new_tracker :: tracker where
  "new_tracker = \<lparr> processedImages = Map.empty, processedHashes = {}, inFlight = {} \<rparr>"

text \<open>
  \<open>simpleHash\<close>: \<open>hash = ((hash << 5) - hash) + char; hash = hash & hash\<close>. The
  intermediate value is an exact double and \<open>&\<close> reduces it to a signed 32-bit integer,
  so the loop is arithmetic on 32-bit words; \<open>toString(36)\<close> prints the signed value.
\<close>

definition hash_step :: "32 word \<Rightarrow> char \<Rightarrow> 32 word" where
  "hash_step hash c = (push_bit 5 hash - hash) + of_nat (of_char c)"

definition digit36 :: "nat \<Rightarrow> char" where
  "digit36 d = ''0123456789abcdefghijklmnopqrstuvwxyz'' ! d"

function digits36 :: "nat \<Rightarrow> string" where
  "digits36 n = (if n < 36 then [digit36 n] else digits36 (n div 36) @ [digit36 (n mod 36)])"
  by pat_completeness auto
termination
  by (relation "measure id") auto

declare digits36.simps [simp del]

definition toString36 :: "int \<Rightarrow> string" where
  "toString36 i = (if i < 0 then CHR ''-'' # digits36 (nat (- i)) else digits36 (nat i))"

definition simpleHash :: "string \<Rightarrow> string" where
  "simpleHash str = toString36 (sint (foldl hash_step 0 str))"

definition getImageHash :: "image \<Rightarrow> string" where
  "getImageHash img =
     simpleHash (src img @ ''_'' @ show_nat (naturalWidth img) @ ''x'' @ show_nat (naturalHeight img))"

definition isProcessed :: "tracker \<Rightarrow> image \<Rightarrow> bool" where
  "isProcessed t img =
     (if elem img \<in> dom (processedImages t) then True
      else if getImageHash img \<in> processedHashes t then True
      else False)"

definition isInFlight :: "tracker \<Rightarrow> image \<Rightarrow> bool" where
  "isInFlight t img = (getImageHash img \<in> inFlight t)"

definition markInFlight :: "tracker \<Rightarrow> image \<Rightarrow> tracker" where
  "markInFlight t img = t\<lparr> inFlight := insert (getImageHash img) (inFlight t) \<rparr>"

definition clearInFlight :: "tracker \<Rightarrow> image \<Rightarrow> tracker" where
  "clearInFlight t img = t\<lparr> inFlight := inFlight t - {getImageHash img} \<rparr>"

text \<open>\<open>now\<close> is the value of \<open>Date.now()\<close> at the call.\<close>

definition markProcessed :: "tracker \<Rightarrow> image \<Rightarrow> string \<Rightarrow> nat \<Rightarrow> tracker" where
  "markProcessed t img description now =
     clearInFlight
       (t\<lparr> processedImages := (processedImages t)(elem img \<mapsto> (description, now)),
           processedHashes := insert (getImageHash img) (processedHashes t) \<rparr>)
       img"

definition shouldReprocess :: "tracker \<Rightarrow> image \<Rightarrow> bool" where
  "shouldReprocess t img =
     (case processedImages t (elem img) of
        None \<Rightarrow> True
      | Some (description, timestamp) \<Rightarrow> alt img \<noteq> description)"

definition tracker_clear :: "tracker \<Rightarrow> tracker" where
  "tracker_clear t = t\<lparr> processedHashes := {}, inFlight := {} \<rparr>"

text \<open>
  What other code may do to the shared tracker while one call of \<open>processSingleImage\<close>
  is suspended at an \<open>await\<close>: the tracker's mutating operations of the normal flow
  (\<open>clear()\<close> is for tests and debugging only).
\<close>

datatype tracker_op =
    MarkInFlight image
  | ClearInFlight image
  | MarkProcessed image string nat

fun apply_op :: "tracker \<Rightarrow> tracker_op \<Rightarrow> tracker" where
  "apply_op t (MarkInFlight img) = markInFlight t img"
| "apply_op t (ClearInFlight img) = clearInFlight t img"
| "apply_op t (MarkProcessed img d now) = markProcessed t img d now"

definition apply_ops :: "tracker \<Rightarrow> tracker_op list \<Rightarrow> tracker" where
  "apply_ops t ops = foldl apply_op t ops"

section \<open>Image converter (utils/imageConverter.js)\<close>

text \<open>
  The browser is the environment of the converter. What the canvas does with an image,
  what \<open>fetch\<close> does with a URL and what \<open>browser.runtime.sendMessage\<close> answers
  are given by the fields of \<open>converter_env\<close>; \<open>number_text\<close> is the engine's
  printing of large numbers (see \<open>to_string\<close>).
\<close>

datatype canvas_outcome =
    NoContext
  | CanvasThrows string
  | CanvasDataURL string

datatype reader_outcome =
    ReaderFailed
  | ReaderResult string

datatype blob_outcome =
    BlobRejected string
  | Blob string reader_outcome

datatype http_outcome =
    FetchRejected string
  | FetchResponse nat string blob_outcome

datatype strategy = Canvas | Fetch | Background

record converter_env =
  canvas :: "image \<Rightarrow> canvas_outcome"
  fetch_image :: "string \<Rightarrow> http_outcome"
  sendMessage :: "jsval \<Rightarrow> string + jsval"
  number_text :: "int \<Rightarrow> string"

definition response_ok :: "nat \<Rightarrow> bool" where
  "response_ok status = (200 \<le> status \<and> status \<le> 299)"

definition imageToBase64Canvas :: "converter_env \<Rightarrow> image \<Rightarrow> string + string" where
  "imageToBase64Canvas env img =
     (case canvas env img of
        NoContext \<Rightarrow> Inl ''Could not get canvas context''
      | CanvasThrows m \<Rightarrow> Inl m
      | CanvasDataURL base64 \<Rightarrow> Inr base64)"

definition fetchImageAsBase64 :: "converter_env \<Rightarrow> string \<Rightarrow> string + string" where
  "fetchImageAsBase64 env url =
     (case fetch_image env url of
        FetchRejected m \<Rightarrow> Inl m
      | FetchResponse status statusText body \<Rightarrow>
          if \<not> response_ok status then Inl (''Fetch failed: '' @ show_nat status)
          else (case body of
                  BlobRejected m \<Rightarrow> Inl m
                | Blob ty rd \<Rightarrow>
                    (case rd of
                       ReaderFailed \<Rightarrow> Inl ''FileReader failed''
                     | ReaderResult result \<Rightarrow> Inr result)))"

text \<open>
  \<open>requestBackgroundConversion\<close>: the promise resolves with \<open>response.base64\<close>,
  whatever value that is, when \<open>response && response.success\<close>; it rejects with
  \<open>response?.error || 'Background conversion failed'\<close> otherwise, and with the error
  of \<open>sendMessage\<close> when that rejects. An exception of the \<open>Error\<close> constructor,
  which applies \<open>ToString\<close> to its argument, is thrown inside the \<open>then\<close> callback
  and reaches the \<open>catch\<close> callback, which rejects with it.
\<close>

definition requestBackgroundConversion :: "converter_env \<Rightarrow> string \<Rightarrow> string + jsval" where
  "requestBackgroundConversion env url =
     (case sendMessage env (JObj [(''type'', JStr ''CONVERT_IMAGE''), (''url'', JStr url)]) of
        Inl m \<Rightarrow> Inl m
      | Inr response \<Rightarrow>
          (case get_prop response ''success'' of
             Inl e \<Rightarrow> Inl ''Background conversion failed''
           | Inr ok \<Rightarrow>
               if truthy response \<and> truthy ok then
                 (case get_prop response ''base64'' of Inl e \<Rightarrow> Inl e | Inr base64 \<Rightarrow> Inr base64)
               else
                 (case get_prop response ''error'' of
                    Inl e \<Rightarrow> Inl ''Background conversion failed''
                  | Inr err \<Rightarrow>
                      if truthy err then
                        (case to_string (number_text env) err of Inl e \<Rightarrow> Inl e | Inr m \<Rightarrow> Inl m)
                      else Inl ''Background conversion failed'')))"

text \<open>
  \<open>convertImageToBase64\<close> returns the strategies it attempted, in the order it attempted
  them, and the value it resolves with or the error it rejects with.
\<close>

definition convertImageToBase64 :: "converter_env \<Rightarrow> image \<Rightarrow> strategy list \<times> (string + jsval)" where
  "convertImageToBase64 env img =
     (if src img = [] then ([], Inl ''Invalid image element'')
      else if naturalWidth img = 0 \<or> naturalHeight img = 0 then ([], Inl ''Image not loaded or broken'')
      else if startsWith (src img) ''data:'' then ([], Inr (JStr (src img)))
      else
        (case imageToBase64Canvas env img of
           Inr base64 \<Rightarrow> ([Canvas], Inr (JStr base64))
         | Inl canvasError \<Rightarrow>
             (case fetchImageAsBase64 env (src img) of
                Inr base64 \<Rightarrow> ([Canvas, Fetch], Inr (JStr base64))
              | Inl fetchError \<Rightarrow>
                  (case requestBackgroundConversion env (src img) of
                     Inr base64 \<Rightarrow> ([Canvas, Fetch, Background], Inr base64)
                   | Inl backgroundError \<Rightarrow>
                       ([Canvas, Fetch, Background],
                        Inl (''Image conversion failed: '' @ backgroundError))))))"

text \<open>\<open>getBase64Size\<close> and \<open>isWithinSizeLimit\<close>. \<open>indexOf\<close> is \<open>-1\<close> where the
  character does not occur; \<open>Math.ceil(n * 3 / 4)\<close> is \<open>(3 * n + 3) div 4\<close> on the
  integers; a size in bytes exceeds \<open>maxSizeMB\<close> megabytes when it exceeds
  \<open>maxSizeMB * 1024 * 1024\<close> (the division by a power of two is exact).\<close>

fun indexOf :: "string \<Rightarrow> char \<Rightarrow> int" where
  "indexOf [] c = - 1"
| "indexOf (x # xs) c = (if x = c then 0 else (let i = indexOf xs c in if i < 0 then - 1 else i + 1))"

definition getBase64Size :: "string \<Rightarrow> int" where
  "getBase64Size base64 =
     (let padding = int (length (filter (\<lambda>c. c = CHR ''='') base64));
          base64Length = int (length base64) - indexOf base64 CHR '','' - 1
      in (3 * base64Length + 3) div 4 - padding)"

definition isWithinSizeLimit :: "string \<Rightarrow> int \<Rightarrow> bool" where
  "isWithinSizeLimit base64 maxSizeMB =
     (if getBase64Size base64 > maxSizeMB * (1024 * 1024) then False else True)"

text \<open>
  \<open>base64ToBlob\<close>. \<open>split(',')\<close> cuts at every comma; the regular expression
  \<open>/:(.*?);/\<close> matches at the leftmost colon that is followed by a semicolon with no
  line terminator in between, and captures the text between them; \<open>atob\<close> is the
  browser's and is a parameter. A blob is its MIME type and its bytes.
\<close>

fun split_on :: "char \<Rightarrow> string \<Rightarrow> string list" where
  "split_on sep [] = [[]]"
| "split_on sep (c # cs) =
     (if c = sep then [] # split_on sep cs
      else (case split_on sep cs of [] \<Rightarrow> [[c]] | p # ps \<Rightarrow> (c # p) # ps))"

fun lazy_until_semicolon :: "string \<Rightarrow> string option" where
  "lazy_until_semicolon [] = None"
| "lazy_until_semicolon (c # cs) =
     (if c = CHR '';'' then Some []
      else if c = CHR 0x0A \<or> c = CHR 0x0D then None
      else map_option ((#) c) (lazy_until_semicolon cs))"

fun mime_match :: "string \<Rightarrow> string option" where
  "mime_match [] = None"
| "mime_match (c # cs) =
     (if c = CHR '':'' then
        (case lazy_until_semicolon cs of Some m \<Rightarrow> Some m | None \<Rightarrow> mime_match cs)
      else mime_match cs)"

definition base64ToBlob :: "(string \<Rightarrow> string + string) \<Rightarrow> string \<Rightarrow> string + (string \<times> string)" where
  "base64ToBlob atob base64 =
     (case split_on CHR '','' base64 of
        [metadata, data] \<Rightarrow>
          (case mime_match metadata of
             None \<Rightarrow> Inl ''Could not extract MIME type''
           | Some mime \<Rightarrow>
               (case atob data of Inl m \<Rightarrow> Inl m | Inr binary \<Rightarrow> Inr (mime, binary)))
      | _ \<Rightarrow> Inl ''Invalid base64 format'')"

section \<open>Background script (background.js)\<close>

text \<open>The background script's own \<open>fetchImageAsBase64\<close>; \<open>url\<close> is whatever value
  the message carried, and \<open>url.substring\<close> exists on strings only.\<close>

definition bg_fetchImageAsBase64 :: "(string \<Rightarrow> http_outcome) \<Rightarrow> jsval \<Rightarrow> string + string" where
  "bg_fetchImageAsBase64 fetch url =
     (case url of
        JStr u \<Rightarrow>
          (case fetch u of
             FetchRejected m \<Rightarrow> Inl m
           | FetchResponse status statusText body \<Rightarrow>
               if \<not> response_ok status then
                 Inl (''HTTP '' @ show_nat status @ '': '' @ statusText)
               else (case body of
                       BlobRejected m \<Rightarrow> Inl m
                     | Blob ty rd \<Rightarrow>
                         if \<not> startsWith ty ''image/'' then Inl (''Not an image: '' @ ty)
                         else (case rd of
                                 ReaderFailed \<Rightarrow> Inl ''FileReader failed''
                               | ReaderResult result \<Rightarrow> Inr result)))
      | _ \<Rightarrow> Inl ''url.substring is not a function'')"

text \<open>The body of the \<open>try\<close> block of \<open>handleMessage\<close>, given the value of
  \<open>message.type\<close>. The template literal of the \<open>default\<close> branch applies
  \<open>ToString\<close> to it.\<close>

definition handleMessage_try ::
  "(int \<Rightarrow> string) \<Rightarrow> (string \<Rightarrow> http_outcome) \<Rightarrow> jsval \<Rightarrow> jsval \<Rightarrow> string + jsval" where
  "handleMessage_try num fetch message ty =
     (if ty = JStr ''CONVERT_IMAGE'' then
        (case get_prop message ''url'' of
           Inl e \<Rightarrow> Inl e
         | Inr url \<Rightarrow>
             if \<not> truthy url then Inl ''No URL provided''
             else (case bg_fetchImageAsBase64 fetch url of
                     Inl e \<Rightarrow> Inl e
                   | Inr base64 \<Rightarrow>
                       Inr (JObj [(''success'', JBool True), (''base64'', JStr base64)])))
      else if ty = JStr ''GET_STATS'' then
        Inr (JObj [(''success'', JBool True), (''stats'', JObj [])])
      else (case to_string num ty of
              Inl e \<Rightarrow> Inl e
            | Inr s \<Rightarrow> Inl (''Unknown message type: '' @ s)))"

text \<open>
  \<open>handleMessage\<close>: \<open>Inr\<close> is the value its promise resolves with, \<open>Inl\<close> the error
  it rejects with. The first statement, the log line with the template literal
  \<open>`Received message type: ${message.type}`\<close>, stands before the \<open>try\<close> block: it
  reads \<open>message.type\<close> and applies \<open>ToString\<close> to it, and an exception of either
  rejects the promise. \<open>num\<close> is the engine's printing of large numbers.
\<close>

definition handleMessage ::
  "(int \<Rightarrow> string) \<Rightarrow> (string \<Rightarrow> http_outcome) \<Rightarrow> jsval \<Rightarrow> string + jsval" where
  "handleMessage num fetch message =
     (case get_prop message ''type'' of
        Inl e \<Rightarrow> Inl e
      | Inr ty \<Rightarrow>
          (case to_string num ty of
             Inl e \<Rightarrow> Inl e
           | Inr logged \<Rightarrow>
               (case handleMessage_try num fetch message ty of
                  Inr response \<Rightarrow> Inr response
                | Inl e \<Rightarrow> Inr (JObj [(''success'', JBool False), (''error'', JStr e)]))))"

section \<open>API client (utils/apiClient.js)\<close>

definition MAX_CONCURRENT_REQUESTS :: int where
  "MAX_CONCURRENT_REQUESTS = 3"

definition BATCH_DELAY_MS :: nat where
  "BATCH_DELAY_MS = 500"

definition MAX_RETRIES :: nat where
  "MAX_RETRIES = 3"

subsection \<open>The description request\<close>

text \<open>
  What the \<open>fetch\<close> of one attempt does: it is aborted by the timeout, it rejects (a
  network error), or it resolves with a response (status, status text, and what
  \<open>response.json()\<close> gives).
\<close>

datatype json_outcome =
    JsonRejected string
  | JsonValue jsval

datatype api_outcome =
    ApiAborted
  | ApiRejected string
  | ApiResponse nat string json_outcome

record api_env =
  atob :: "string \<Rightarrow> string + string"
  api_fetch :: "nat \<Rightarrow> api_outcome"

definition sendWithTimeout :: "api_outcome \<Rightarrow> string + jsval" where
  "sendWithTimeout r =
     (case r of
        ApiAborted \<Rightarrow> Inl ''Request timeout''
      | ApiRejected m \<Rightarrow> Inl m
      | ApiResponse status statusText body \<Rightarrow>
          if \<not> response_ok status then
            Inl (''API returned '' @ show_nat status @ '': '' @ statusText)
          else (case body of
                  JsonRejected m \<Rightarrow> Inl m
                | JsonValue data \<Rightarrow>
                    if \<not> truthy data then Inl ''Invalid API response format''
                    else (case get_prop data ''description'' of
                            Inr (JStr d) \<Rightarrow> Inr data
                          | _ \<Rightarrow> Inl ''Invalid API response format'')))"

text \<open>The body of the \<open>try\<close> block of one attempt: the description, or the error caught.\<close>

definition attempt_once :: "api_env \<Rightarrow> string \<Rightarrow> nat \<Rightarrow> string + string" where
  "attempt_once env base64 attempt =
     (case base64ToBlob (atob env) base64 of
        Inl m \<Rightarrow> Inl m
      | Inr blob \<Rightarrow>
          (case sendWithTimeout (api_fetch env attempt) of
             Inl m \<Rightarrow> Inl m
           | Inr data \<Rightarrow>
               (case get_prop data ''description'' of
                  Inr (JStr d) \<Rightarrow> Inr d
                | _ \<Rightarrow> Inl ''data.description.substring is not a function'')))"

text \<open>The test of the \<open>catch\<close> block: "don't retry on certain errors".\<close>

definition no_retry :: "string \<Rightarrow> bool" where
  "no_retry message = (includes_str message ''400'' \<or> includes_str message ''Invalid'')"

text \<open>An attempt after which the loop goes on: it fails and the test above is false. An
  outcome of an attempt after which the loop ends: success, or an error the test accepts.\<close>

definition retryable_failure :: "api_env \<Rightarrow> string \<Rightarrow> nat \<Rightarrow> bool" where
  "retryable_failure env base64 i =
     (case attempt_once env base64 i of Inl m \<Rightarrow> \<not> no_retry m | Inr d \<Rightarrow> False)"

definition stops :: "string + string \<Rightarrow> bool" where
  "stops r = (case r of Inl m \<Rightarrow> no_retry m | Inr d \<Rightarrow> True)"

text \<open>
  A run of \<open>sendImageToAPI\<close>: what the promise settles with, the arguments of the
  \<open>sleep\<close> calls in order (milliseconds), and the number of attempts made.
\<close>

record api_run =
  outcome :: "string + string"
  waits :: "nat list"
  attempts :: nat

function sendImageToAPI_from ::
  "api_env \<Rightarrow> string \<Rightarrow> nat \<Rightarrow> nat \<Rightarrow> string option \<Rightarrow> nat list \<Rightarrow> api_run" where
  "sendImageToAPI_from env base64 maxRetries attempt lastError slept =
     (if attempt \<le> maxRetries then
        (case attempt_once env base64 attempt of
           Inr description \<Rightarrow>
             \<lparr> outcome = Inr description, waits = slept, attempts = attempt \<rparr>
         | Inl message \<Rightarrow>
             if no_retry message then
               \<lparr> outcome = Inl message, waits = slept, attempts = attempt \<rparr>
             else
               sendImageToAPI_from env base64 maxRetries (attempt + 1) (Some message)
                 (if attempt < maxRetries then slept @ [2 ^ (attempt - 1) * 1000] else slept))
      else
        \<lparr> outcome =
            (case lastError of
               None \<Rightarrow> Inl ''can't access property message of undefined''
             | Some message \<Rightarrow>
                 Inl (''API failed after '' @ show_nat maxRetries @ '' attempts: '' @ message)),
          waits = slept, attempts = attempt - 1 \<rparr>)"
  by pat_completeness auto
termination
  by (relation "measure (\<lambda>(env, base64, maxRetries, attempt, lastError, slept). maxRetries + 1 - attempt)")
     auto

declare sendImageToAPI_from.simps [simp del]

definition sendImageToAPI :: "api_env \<Rightarrow> string \<Rightarrow> nat \<Rightarrow> api_run" where
  "sendImageToAPI env base64 maxRetries = sendImageToAPI_from env base64 maxRetries 1 None []"

subsection \<open>RequestQueue\<close>

text \<open>
  The queue lives in a single-threaded event loop. Its state is the fields of the class
  (\<open>concurrency\<close>, \<open>delayMs\<close>, \<open>queue\<close>, \<open>active\<close>, \<open>stats\<close>) and the part of
  the event loop the class depends on: the tasks whose thunk has been called and whose
  promise has not settled (\<open>running\<close>), the deadlines of the pending \<open>sleep(delayMs)\<close>
  timers, one for each suspended call of \<open>process\<close> (\<open>sleepers\<close>), and the time in
  milliseconds (\<open>clock\<close>). The counters of \<open>this.stats\<close> are the fields
  \<open>total\<close>, \<open>success\<close> and \<open>failed\<close>. A queue entry
  \<open>{task, resolve, reject}\<close> is named by a number.

  \<open>trace\<close> records what the queue did: \<open>Started tid t\<close>, the thunk of entry
  \<open>tid\<close> was called at time \<open>t\<close>; \<open>Settled tid ok t pending\<close>, at time \<open>t\<close>
  the outcome of entry \<open>tid\<close> was passed to \<open>resolve\<close> (\<open>ok\<close>) or to
  \<open>reject\<close>, and \<open>pending\<close> tells whether the queue was non-empty then.

  The thunks are async functions, as those of \<open>processImage\<close> are: calling one
  returns a promise, which settles in a later turn of the event loop.
\<close>

datatype trace_entry =
    Started nat nat
  | Settled nat bool nat bool

record request_queue =
  concurrency :: int
  delayMs :: nat
  queue :: "nat list"
  active :: int
  total :: int
  success :: int
  failed :: int
  running :: "nat list"
  sleepers :: "nat list"
  clock :: nat
  trace :: "trace_entry list"

definition RequestQueue :: "int \<Rightarrow> nat \<Rightarrow> request_queue" where
  "RequestQueue c d =
     \<lparr> concurrency = c, delayMs = d, queue = [], active = 0,
       total = 0, success = 0, failed = 0,
       running = [], sleepers = [], clock = 0, trace = [] \<rparr>"

text \<open>\<open>process()\<close> up to its \<open>await task()\<close>: the guard, \<open>active++\<close>,
  \<open>queue.shift()\<close> and the call of the thunk.\<close>

definition process :: "request_queue \<Rightarrow> request_queue" where
  "process q =
     (if active q \<ge> concurrency q \<or> length (queue q) = 0 then q
      else
        (let tid = hd (queue q) in
         q\<lparr> active := active q + 1,
            queue := tl (queue q),
            running := running q @ [tid],
            trace := trace q @ [Started tid (clock q)] \<rparr>))"

definition add :: "nat \<Rightarrow> request_queue \<Rightarrow> request_queue" where
  "add tid q = process (q\<lparr> queue := queue q @ [tid], total := total q + 1 \<rparr>)"

text \<open>
  \<open>process()\<close> from the settling of the task's promise to the next suspension:
  the counter, \<open>resolve\<close> or \<open>reject\<close>, and the \<open>finally\<close> block up to
  \<open>await sleep(this.delayMs)\<close> or, when nothing is queued, to the call of
  \<open>this.process()\<close>. The \<open>Settled\<close> entry records whether work was queued then.
\<close>

definition process_settled :: "nat \<Rightarrow> bool \<Rightarrow> request_queue \<Rightarrow> request_queue" where
  "process_settled tid ok q =
     (let q1 = (if ok then q\<lparr> success := success q + 1 \<rparr> else q\<lparr> failed := failed q + 1 \<rparr>);
          q2 = q1\<lparr> active := active q1 - 1,
                  running := remove1 tid (running q1),
                  trace := trace q1 @ [Settled tid ok (clock q1) (length (queue q1) > 0)] \<rparr>
      in if length (queue q2) > 0 then q2\<lparr> sleepers := sleepers q2 @ [clock q2 + delayMs q2] \<rparr>
         else process q2)"

text \<open>\<open>process()\<close> from the firing of its \<open>sleep\<close> timer: the call of
  \<open>this.process()\<close> that ends the \<open>finally\<close> block.\<close>

definition process_woken :: "nat \<Rightarrow> request_queue \<Rightarrow> request_queue" where
  "process_woken k q = process (q\<lparr> sleepers := take k (sleepers q) @ drop (Suc k) (sleepers q) \<rparr>)"

definition getStats :: "request_queue \<Rightarrow> jsval" where
  "getStats q =
     JObj [(''total'', JNum (total q)), (''success'', JNum (success q)), (''failed'', JNum (failed q)),
           (''queued'', JNum (int (length (queue q)))), (''active'', JNum (active q))]"

definition clear :: "request_queue \<Rightarrow> request_queue" where
  "clear q = q\<lparr> queue := [] \<rparr>"

text \<open>
  What can happen to the queue: a call of \<open>add\<close>; the promise of a running task
  settles (fulfilled or rejected); time passes; a pending \<open>sleep\<close> timer fires, which
  it can only once its delay has elapsed; a call of \<open>clear\<close>. A step that cannot
  happen in the state is \<open>None\<close>.
\<close>

datatype queue_event =
    Add nat
  | TaskSettles nat bool
  | Elapse nat
  | TimerFires nat
  | Clear

fun step :: "queue_event \<Rightarrow> request_queue \<Rightarrow> request_queue option" where
  "step (Add tid) q = Some (add tid q)"
| "step (TaskSettles tid ok) q =
     (if tid \<in> set (running q) then Some (process_settled tid ok q) else None)"
| "step (Elapse d) q = Some (q\<lparr> clock := clock q + d \<rparr>)"
| "step (TimerFires k) q =
     (if k < length (sleepers q) \<and> sleepers q ! k \<le> clock q then Some (process_woken k q)
      else None)"
| "step Clear q = Some (clear q)"

fun run :: "queue_event list \<Rightarrow> request_queue \<Rightarrow> request_queue option" where
  "run [] q = Some q"
| "run (e # es) q = (case step e q of None \<Rightarrow> None | Some q' \<Rightarrow> run es q')"

text \<open>The tasks submitted by a sequence of events, in order; the thunks called, in the
  order of their calls, with and without the time of the call.\<close>

fun submitted :: "queue_event list \<Rightarrow> nat list" where
  "submitted [] = []"
| "submitted (Add tid # es) = tid # submitted es"
| "submitted (e # es) = submitted es"

fun start_times :: "trace_entry list \<Rightarrow> (nat \<times> nat) list" where
  "start_times [] = []"
| "start_times (Started tid t # es) = (tid, t) # start_times es"
| "start_times (e # es) = start_times es"

definition started :: "request_queue \<Rightarrow> nat list" where
  "started q = map fst (start_times (trace q))"

fun count_settled :: "bool \<Rightarrow> queue_event list \<Rightarrow> nat" where
  "count_settled ok [] = 0"
| "count_settled ok (TaskSettles tid ok' # es) = (if ok' = ok then 1 else 0) + count_settled ok es"
| "count_settled ok (e # es) = count_settled ok es"

text \<open>
  Two properties of a queue state that every step preserves: \<open>active\<close> counts the
  running tasks and does not exceed the concurrency; every task counted in \<open>total\<close> has
  succeeded, has failed, is running or is queued.
\<close>

definition accounted :: "request_queue \<Rightarrow> bool" where
  "accounted q = (active q = int (length (running q)) \<and> active q \<le> max 0 (concurrency q))"

definition balanced :: "request_queue \<Rightarrow> bool" where
  "balanced q = (total q = success q + failed q + active q + int (length (queue q)))"

text \<open>
  The pacing property as the specification states it, on a trace: once a task has settled
  while work was queued, at time \<open>t\<close>, no thunk is called before \<open>t + D\<close>.
  \<open>early_start T es\<close> says that \<open>es\<close> has a call before time \<open>T\<close>.
\<close>

fun early_start :: "nat \<Rightarrow> trace_entry list \<Rightarrow> bool" where
  "early_start T [] = False"
| "early_start T (Started tid t # es) = (t < T \<or> early_start T es)"
| "early_start T (e # es) = early_start T es"

fun paced :: "nat \<Rightarrow> trace_entry list \<Rightarrow> bool" where
  "paced D [] = True"
| "paced D (Settled tid ok t pending # es) = ((pending \<longrightarrow> \<not> early_start (t + D) es) \<and> paced D es)"
| "paced D (e # es) = paced D es"

section \<open>Orchestrator: processSingleImage (content/imageProcessor.js)\<close>

text \<open>
  The environment of one call of \<open>processSingleImage\<close>: the converter's and the API
  client's environments; whether the queue entry of \<open>processImage\<close> is ever dispatched
  (an entry discarded by \<open>clear()\<close> is neither resolved nor rejected); the value of
  \<open>Date.now()\<close>; and what happens while the call is suspended at its two \<open>await\<close>s.
  There other code can use the shared tracker (\<open>during_convert\<close>,
  \<open>during_describe\<close>), and the page can change the image element, which is a live
  DOM node: \<open>page_during_convert\<close> and \<open>page_during_describe\<close> give the
  properties of the element after the first and the second \<open>await\<close> from those before
  it (a lazy loader that swaps \<open>src\<close>, for instance). The element stays the same
  node, so its \<open>elem\<close> is kept.
\<close>

record page_env =
  converter :: converter_env
  api :: api_env
  dispatched :: bool
  during_convert :: "tracker_op list"
  during_describe :: "tracker_op list"
  page_during_convert :: "image \<Rightarrow> image"
  page_during_describe :: "image \<Rightarrow> image"
  date_now :: nat

text \<open>\<open>processImage(base64)\<close> is \<open>requestQueue.add(() => sendImageToAPI(base64))\<close>:
  the queue settles the promise with the outcome of the thunk. \<open>None\<close> is a promise that
  never settles.\<close>

definition processImage :: "page_env \<Rightarrow> string \<Rightarrow> (string + string) option" where
  "processImage env base64 =
     (if dispatched env then Some (outcome (sendImageToAPI (api env) base64 MAX_RETRIES)) else None)"

datatype psi_result = Returned | Threw string | Pending

text \<open>
  A call of \<open>processSingleImage\<close>: the tracker and the image when the call ends (or
  stays suspended for ever), the number of calls of \<open>convertImageToBase64\<close>, the
  payloads passed to \<open>processImage\<close>, and how the call ends.
\<close>

record psi_run =
  tracker_after :: tracker
  image_after :: image
  conversions :: nat
  submissions :: "string list"
  result :: psi_result

text \<open>
  Every call of a tracker method computes the identity from the element as it is at that
  moment: \<open>markInFlight\<close> from the element at the start (\<open>img\<close>), the
  \<open>clearInFlight\<close> after the conversion from the element after the first \<open>await\<close>
  (\<open>img1\<close>), \<open>markProcessed\<close> and the \<open>clearInFlight\<close> after the description
  from the element after the second \<open>await\<close> (\<open>img2\<close>). The converter is called
  with the element as it is at the start.
\<close>

definition processSingleImage :: "page_env \<Rightarrow> tracker \<Rightarrow> image \<Rightarrow> psi_run" where
  "processSingleImage env t img =
     (if isProcessed t img then
        \<lparr> tracker_after = t, image_after = img, conversions = 0, submissions = [], result = Returned \<rparr>
      else if isInFlight t img then
        \<lparr> tracker_after = t, image_after = img, conversions = 0, submissions = [], result = Returned \<rparr>
      else
        (let t1 = apply_ops (markInFlight t img) (during_convert env);
             img1 = (page_during_convert env img)\<lparr> elem := elem img \<rparr> in
         case snd (convertImageToBase64 (converter env) img) of
           Inl e \<Rightarrow>
             \<lparr> tracker_after = clearInFlight t1 img1, image_after = img1, conversions = 1,
               submissions = [], result = Threw e \<rparr>
         | Inr (JStr base64) \<Rightarrow>
             if \<not> isWithinSizeLimit base64 5 then
               \<lparr> tracker_after = clearInFlight t1 img1, image_after = img1, conversions = 1,
                 submissions = [], result = Returned \<rparr>
             else
               (let t2 = apply_ops t1 (during_describe env);
                    img2 = (page_during_describe env img1)\<lparr> elem := elem img \<rparr> in
                case processImage env base64 of
                  None \<Rightarrow>
                    \<lparr> tracker_after = t2, image_after = img2, conversions = 1,
                      submissions = [base64], result = Pending \<rparr>
                | Some (Inl e) \<Rightarrow>
                    \<lparr> tracker_after = clearInFlight t2 img2, image_after = img2, conversions = 1,
                      submissions = [base64], result = Threw e \<rparr>
                | Some (Inr description) \<Rightarrow>
                    (let img' = img2\<lparr> alt := description, title := description \<rparr> in
                     \<lparr> tracker_after = markProcessed t2 img' description (date_now env),
                       image_after = img', conversions = 1,
                       submissions = [base64], result = Returned \<rparr>))
         | Inr other \<Rightarrow>
             \<lparr> tracker_after = clearInFlight t1 img1, image_after = img1, conversions = 1,
               submissions = [], result = Threw ''base64.match is not a function'' \<rparr>))"

section \<open>Example inputs\<close>

text \<open>Two image elements with the same locator and natural dimensions.\<close>

definition photo :: image where
  "photo = \<lparr> elem = 1, src = ''https://example.org/photo.jpg'', naturalWidth = 640,
             naturalHeight = 480, alt = [], title = [] \<rparr>"

definition photo_again :: image where
  "photo_again = \<lparr> elem = 2, src = ''https://example.org/photo.jpg'', naturalWidth = 640,
                   naturalHeight = 480, alt = ''old'', title = [] \<rparr>"

text \<open>A page where the canvas is tainted, the direct fetch is blocked and the background
  script gets a 404 for every URL.\<close>

definition blocked_converter :: converter_env where
  "blocked_converter =
     \<lparr> canvas = (\<lambda>img. CanvasThrows ''The operation is insecure.''),
       fetch_image = (\<lambda>url. FetchRejected ''NetworkError when attempting to fetch resource.''),
       sendMessage = handleMessage show_int (\<lambda>url. FetchResponse 404 ''Not Found'' (BlobRejected [])),
       number_text = show_int \<rparr>"



text \<open>A description service that never answers in time.\<close>

definition down_api :: api_env where
  "down_api = \<lparr> atob = (\<lambda>s. Inr s), api_fetch = (\<lambda>n. ApiAborted) \<rparr>"

text \<open>A page that leaves the image alone, and a page whose lazy loader replaces the
  image by a larger one while the conversion is under way.\<close>

definition page :: "converter_env \<Rightarrow> api_env \<Rightarrow> page_env" where
  "page c a = \<lparr> converter = c, api = a, dispatched = True, during_convert = [],
               during_describe = [], page_during_convert = (\<lambda>img. img),
               page_during_describe = (\<lambda>img. img), date_now = 0 \<rparr>"


text \<open>A well-formed payload of three bytes.\<close>

definition tiny_payload :: string where
  "tiny_payload = ''data:image/jpeg;base64,AAAA''"

text \<open>Description services: one that answers 503 before attempt \<open>k\<close> and succeeds from
  attempt \<open>k\<close> on; one that answers 404 to the first attempt and succeeds afterwards; one
  that answers 400 to every attempt; one that answers every attempt with the JSON object
  \<open>{}\<close>.\<close>

definition flaky_api :: "nat \<Rightarrow> api_env" where
  "flaky_api k =
     \<lparr> atob = (\<lambda>s. Inr s),
       api_fetch = (\<lambda>n. if n < k then ApiResponse 503 ''Service Unavailable'' (JsonRejected [])
                        else ApiResponse 200 ''OK'' (JsonValue (JObj [(''description'', JStr ''a cat'')]))) \<rparr>"




text \<open>What \<open>fetch\<close> does in the background script: the network is down, or every URL
  is a small PNG.\<close>

definition offline_fetch :: "string \<Rightarrow> http_outcome" where
  "offline_fetch url = FetchRejected ''NetworkError when attempting to fetch resource.''"

definition cdn_fetch :: "string \<Rightarrow> http_outcome" where
  "cdn_fetch url = FetchResponse 200 ''OK'' (Blob ''image/png'' (ReaderResult ''data:image/png;base64,AAAA''))"

text \<open>
  Runs of the queue. With concurrency 1: three tasks, the first settles and its pacing
  timer fires; two tasks that both settle. With the default concurrency 3 and delay
  500 ms: a task is added 10 ms after a completion that left work queued; the pacing
  timer of one completion fires 1 ms after another completion.
\<close>

definition fifo_run :: "queue_event list" where
  "fifo_run = [Add 1, Add 2, Add 3, Elapse 40, TaskSettles 1 True, Elapse 500, TimerFires 0]"

definition full_run :: "queue_event list" where
  "full_run = [Add 1, Add 2, Elapse 40, TaskSettles 1 True, Elapse 500, TimerFires 0,
               Elapse 30, TaskSettles 2 False]"

definition burst_by_add :: "queue_event list" where
  "burst_by_add = [Add 1, Add 2, Add 3, Add 4, Elapse 100, TaskSettles 1 True, Elapse 10, Add 5]"

definition burst_by_timer :: "queue_event list" where
  "burst_by_timer = [Add 1, Add 2, Add 3, Add 4, Add 5, Elapse 100, TaskSettles 1 True,
                     Elapse 499, TaskSettles 2 True, Elapse 1, TimerFires 0]"

text \<open>A queue of concurrency 1 with task 1 running since time 0 and task 2 queued, at
  time 40.\<close>

definition busy_queue :: request_queue where
  "busy_queue =
     \<lparr> concurrency = 1, delayMs = 500, queue = [2], active = 1, total = 2, success = 0,
       failed = 0, running = [1], sleepers = [], clock = 40, trace = [Started 1 0] \<rparr>"

section \<open>The tracker and the orchestrator\<close>

subsection \<open>Facts about the tracker\<close>

lemma getImageHash_cong:
  "src b = src a \<Longrightarrow> naturalWidth b = naturalWidth a \<Longrightarrow> naturalHeight b = naturalHeight a \<Longrightarrow>
   getImageHash b = getImageHash a"
  by (simp add: getImageHash_def)

lemma getImageHash_alt_title [simp]:
  "getImageHash (img\<lparr> alt := d, title := d' \<rparr>) = getImageHash img"
  by (simp add: getImageHash_def)

lemma processedHashes_apply_op:
  "h \<in> processedHashes t \<Longrightarrow> h \<in> processedHashes (apply_op t op)"
  by (cases op) (simp_all add: markInFlight_def clearInFlight_def markProcessed_def)

lemma processedHashes_apply_ops:
  "h \<in> processedHashes t \<Longrightarrow> h \<in> processedHashes (apply_ops t ops)"
  unfolding apply_ops_def
  by (induction ops arbitrary: t) (simp_all add: processedHashes_apply_op)

lemma processedHashes_markProcessed:
  "getImageHash img \<in> processedHashes (markProcessed t img d now)"
  by (simp add: markProcessed_def clearInFlight_def)




lemma isProcessed_hash:
  "getImageHash img \<in> processedHashes t \<Longrightarrow> isProcessed t img"
  by (simp add: isProcessed_def)






subsection \<open>Facts about processSingleImage\<close>

lemma processSingleImage_processed:
  "isProcessed t img \<Longrightarrow>
   processSingleImage env t img =
     \<lparr> tracker_after = t, image_after = img, conversions = 0, submissions = [], result = Returned \<rparr>"
  by (simp add: processSingleImage_def)






subsection \<open>Idempotent processing\<close>

text \<open>
  Claim C1. Let image \<open>a\<close> have been marked processed, and let the tracker then go through
  any sequence \<open>ops\<close> of its operations of the normal flow. For every image \<open>b\<close> with the
  locator and the natural dimensions of \<open>a\<close> (the same element or another one): the
  identity hashes of \<open>a\<close> and \<open>b\<close> are equal, \<open>isProcessed\<close> is true of \<open>b\<close>, and
  \<open>processSingleImage\<close> on \<open>b\<close> returns at once, leaving the tracker as it was (no
  \<open>markInFlight\<close>), without calling the converter and without submitting anything to the
  request queue.
\<close>

theorem C1_idempotent_processing:
  assumes "src b = src a" and "naturalWidth b = naturalWidth a"
    and "naturalHeight b = naturalHeight a"
  shows "getImageHash b = getImageHash a
       \<and> isProcessed (apply_ops (markProcessed t a d now) ops) b
       \<and> processSingleImage env (apply_ops (markProcessed t a d now) ops) b =
           \<lparr> tracker_after = apply_ops (markProcessed t a d now) ops, image_after = b,
             conversions = 0, submissions = [], result = Returned \<rparr>"
proof -
  have same: "getImageHash b = getImageHash a"
    using assms by (rule getImageHash_cong)
  have "getImageHash a \<in> processedHashes (apply_ops (markProcessed t a d now) ops)"
    by (rule processedHashes_apply_ops) (rule processedHashes_markProcessed)
  then have processed: "isProcessed (apply_ops (markProcessed t a d now) ops) b"
    using same by (simp add: isProcessed_hash)
  from same processed processSingleImage_processed [OF processed] show ?thesis
    by simp
qed

theorem C1_witness:
  "isProcessed (apply_ops (markProcessed new_tracker photo ''a cat'' 7) [MarkInFlight photo]) photo_again
   \<and> submissions (processSingleImage (page blocked_converter down_api)
         (apply_ops (markProcessed new_tracker photo ''a cat'' 7) [MarkInFlight photo]) photo_again) = []"
  using C1_idempotent_processing [of photo_again photo new_tracker "''a cat''" 7 "[MarkInFlight photo]"
      "page blocked_converter down_api"]
  by (simp add: photo_def photo_again_def)

subsection \<open>The in-flight set is compensated\<close>




subsection \<open>Payload ceiling\<close>




section \<open>The converter's fallback chain\<close>

lemma blocked_steps:
  "imageToBase64Canvas blocked_converter photo = Inl ''The operation is insecure.''"
  "fetchImageAsBase64 blocked_converter (src photo) = Inl ''NetworkError when attempting to fetch resource.''"
  "requestBackgroundConversion blocked_converter (src photo) = Inl ''HTTP 404: Not Found''"
  by (simp_all add: photo_def blocked_converter_def imageToBase64Canvas_def
      fetchImageAsBase64_def requestBackgroundConversion_def handleMessage_def handleMessage_try_def
      bg_fetchImageAsBase64_def response_ok_def show_nat.simps digit10_def)

text \<open>
  Claim C8. For an image with a non-empty locator and non-zero natural dimensions:
  a \<open>data:\<close> locator is returned unchanged and no strategy is attempted. Otherwise the
  canvas is tried first and its result returned if it succeeds; if it fails the direct
  fetch is tried and its result returned if it succeeds; if that fails too the background
  script is asked and its answer returned if it succeeds; and if all three fail the
  converter fails with an error of its own ("Image conversion failed: " followed by the
  message of the last failure). The first component is the list of the strategies
  attempted, in order.
\<close>

theorem C8_fallback_chain:
  assumes "src img \<noteq> []" and "naturalWidth img \<noteq> 0" and "naturalHeight img \<noteq> 0"
  shows "(startsWith (src img) ''data:'' \<longrightarrow>
            convertImageToBase64 env img = ([], Inr (JStr (src img))))
       \<and> (\<not> startsWith (src img) ''data:'' \<longrightarrow>
            (\<forall>b. imageToBase64Canvas env img = Inr b \<longrightarrow>
                 convertImageToBase64 env img = ([Canvas], Inr (JStr b)))
          \<and> (\<forall>e1 b. imageToBase64Canvas env img = Inl e1
                   \<and> fetchImageAsBase64 env (src img) = Inr b \<longrightarrow>
                 convertImageToBase64 env img = ([Canvas, Fetch], Inr (JStr b)))
          \<and> (\<forall>e1 e2 v. imageToBase64Canvas env img = Inl e1
                   \<and> fetchImageAsBase64 env (src img) = Inl e2
                   \<and> requestBackgroundConversion env (src img) = Inr v \<longrightarrow>
                 convertImageToBase64 env img = ([Canvas, Fetch, Background], Inr v))
          \<and> (\<forall>e1 e2 e3. imageToBase64Canvas env img = Inl e1
                   \<and> fetchImageAsBase64 env (src img) = Inl e2
                   \<and> requestBackgroundConversion env (src img) = Inl e3 \<longrightarrow>
                 convertImageToBase64 env img
                   = ([Canvas, Fetch, Background], Inl (''Image conversion failed: '' @ e3))))"
  using assms by (simp add: convertImageToBase64_def)

theorem C8_witness:
  "convertImageToBase64 blocked_converter photo
     = ([Canvas, Fetch, Background], Inl ''Image conversion failed: HTTP 404: Not Found'')"
proof -
  have ok: "src photo \<noteq> []" "naturalWidth photo \<noteq> 0" "naturalHeight photo \<noteq> 0"
    "\<not> startsWith (src photo) ''data:''"
    by (simp_all add: photo_def)
  from C8_fallback_chain [OF ok(1,2,3), of blocked_converter] ok(4) blocked_steps
  show ?thesis by simp
qed

section \<open>The background message handler\<close>

lemma get_prop_total: "v \<noteq> JNull \<Longrightarrow> v \<noteq> JUndefined \<Longrightarrow> \<exists>p. get_prop v k = Inr p"
  by (cases v) simp_all

lemma get_prop_defined: "get_prop v k = Inr p \<Longrightarrow> v \<noteq> JNull \<and> v \<noteq> JUndefined"
  by (cases v) simp_all

lemma to_string_primitive:
  "(\<forall>vs. v \<noteq> JArr vs) \<and> (\<forall>kvs. v \<noteq> JObj kvs) \<Longrightarrow> \<exists>s. to_string num v = Inr s"
  by (cases v) simp_all

lemma handleMessage_try_shape:
  "handleMessage_try num fetch message ty = Inr r \<Longrightarrow>
   \<exists>rest. r = JObj ((''success'', JBool True) # rest)"
  by (auto simp: handleMessage_try_def split: if_splits sum.splits)

text \<open>
  Claim C10, as amended: for every incoming message other than \<open>null\<close> and
  \<open>undefined\<close> whose \<open>type\<close> field converts to a string without an exception (as it
  does whenever it is missing or is a string, a number, a boolean or \<open>null\<close>),
  \<open>handleMessage\<close> resolves, never rejects, and the value is an object whose first
  field is \<open>success\<close>, a boolean: \<open>{success: true, ...}\<close> or
  \<open>{success: false, error: <message>}\<close>. It is the latter for an unknown message type,
  for a \<open>CONVERT_IMAGE\<close> request whose \<open>url\<close> is missing or falsy, and for any failure
  while fetching or decoding the resource; it is \<open>{success: true, base64}\<close> when the
  fetch succeeds.
\<close>

theorem C10_handler_total:
  assumes "message \<noteq> JNull" and "message \<noteq> JUndefined"
    and "get_prop message ''type'' = Inr ty" and "to_string num ty = Inr s"
  shows "(\<exists>r. handleMessage num fetch message = Inr r
            \<and> ((\<exists>rest. r = JObj ((''success'', JBool True) # rest))
               \<or> (\<exists>e. r = JObj [(''success'', JBool False), (''error'', JStr e)])))
       \<and> (ty \<noteq> JStr ''CONVERT_IMAGE'' \<and> ty \<noteq> JStr ''GET_STATS'' \<longrightarrow>
             handleMessage num fetch message
               = Inr (JObj [(''success'', JBool False),
                            (''error'', JStr (''Unknown message type: '' @ s))]))
       \<and> (\<forall>url. ty = JStr ''CONVERT_IMAGE''
                \<and> get_prop message ''url'' = Inr url \<and> \<not> truthy url \<longrightarrow>
             handleMessage num fetch message
               = Inr (JObj [(''success'', JBool False), (''error'', JStr ''No URL provided'')]))
       \<and> (\<forall>url e. ty = JStr ''CONVERT_IMAGE''
                \<and> get_prop message ''url'' = Inr url \<and> truthy url
                \<and> bg_fetchImageAsBase64 fetch url = Inl e \<longrightarrow>
             handleMessage num fetch message
               = Inr (JObj [(''success'', JBool False), (''error'', JStr e)]))
       \<and> (\<forall>url b. ty = JStr ''CONVERT_IMAGE''
                \<and> get_prop message ''url'' = Inr url \<and> truthy url
                \<and> bg_fetchImageAsBase64 fetch url = Inr b \<longrightarrow>
             handleMessage num fetch message
               = Inr (JObj [(''success'', JBool True), (''base64'', JStr b)]))
       \<and> (\<forall>v. (\<forall>vs. v \<noteq> JArr vs) \<and> (\<forall>kvs. v \<noteq> JObj kvs) \<longrightarrow> (\<exists>s'. to_string num v = Inr s'))"
proof -
  have first: "\<exists>r. handleMessage num fetch message = Inr r
            \<and> ((\<exists>rest. r = JObj ((''success'', JBool True) # rest))
               \<or> (\<exists>e. r = JObj [(''success'', JBool False), (''error'', JStr e)]))"
  proof (cases "handleMessage_try num fetch message ty")
    case (Inl e)
    then show ?thesis using assms(3,4) by (simp add: handleMessage_def)
  next
    case (Inr r)
    then show ?thesis
      using assms(3,4) handleMessage_try_shape [OF Inr] by (simp add: handleMessage_def)
  qed
  have rest: "(ty \<noteq> JStr ''CONVERT_IMAGE'' \<and> ty \<noteq> JStr ''GET_STATS'' \<longrightarrow>
             handleMessage num fetch message
               = Inr (JObj [(''success'', JBool False),
                            (''error'', JStr (''Unknown message type: '' @ s))]))
       \<and> (\<forall>url. ty = JStr ''CONVERT_IMAGE''
                \<and> get_prop message ''url'' = Inr url \<and> \<not> truthy url \<longrightarrow>
             handleMessage num fetch message
               = Inr (JObj [(''success'', JBool False), (''error'', JStr ''No URL provided'')]))
       \<and> (\<forall>url e. ty = JStr ''CONVERT_IMAGE''
                \<and> get_prop message ''url'' = Inr url \<and> truthy url
                \<and> bg_fetchImageAsBase64 fetch url = Inl e \<longrightarrow>
             handleMessage num fetch message
               = Inr (JObj [(''success'', JBool False), (''error'', JStr e)]))
       \<and> (\<forall>url b. ty = JStr ''CONVERT_IMAGE''
                \<and> get_prop message ''url'' = Inr url \<and> truthy url
                \<and> bg_fetchImageAsBase64 fetch url = Inr b \<longrightarrow>
             handleMessage num fetch message
               = Inr (JObj [(''success'', JBool True), (''base64'', JStr b)]))"
    using assms(3,4) by (auto simp: handleMessage_def handleMessage_try_def)
  from first rest to_string_primitive [of _ num] show ?thesis by blast
qed

theorem C10_witness:
  "handleMessage show_int offline_fetch (JObj [(''type'', JStr ''CONVERT_IMAGE'')])
     = Inr (JObj [(''success'', JBool False), (''error'', JStr ''No URL provided'')])
   \<and> handleMessage show_int cdn_fetch
       (JObj [(''type'', JStr ''CONVERT_IMAGE''), (''url'', JStr ''https://example.org/a.png'')])
     = Inr (JObj [(''success'', JBool True), (''base64'', JStr ''data:image/png;base64,AAAA'')])
   \<and> handleMessage show_int offline_fetch (JObj [(''type'', JNum 7)])
     = Inr (JObj [(''success'', JBool False), (''error'', JStr ''Unknown message type: 7'')])"
  using C10_handler_total [of "JObj [(''type'', JStr ''CONVERT_IMAGE'')]" "JStr ''CONVERT_IMAGE''"
      show_int "''CONVERT_IMAGE''" offline_fetch]
    C10_handler_total [of "JObj [(''type'', JStr ''CONVERT_IMAGE''), (''url'', JStr ''https://example.org/a.png'')]"
      "JStr ''CONVERT_IMAGE''" show_int "''CONVERT_IMAGE''" cdn_fetch]
    C10_handler_total [of "JObj [(''type'', JNum 7)]" "JNum 7" show_int "''7''" offline_fetch]
  by (simp add: bg_fetchImageAsBase64_def cdn_fetch_def response_ok_def show_int_def
      show_nat.simps digit10_def)

text \<open>
  Claim C10 as stated ("for every incoming message") fails for the message \<open>null\<close>
  and for the message \<open>{type: {toString: 5}}\<close>. The log line that opens
  \<open>handleMessage\<close> stands before the \<open>try\<close> block: for \<open>null\<close> the read of
  \<open>message.type\<close> throws a \<open>TypeError\<close>, and for the second message the template
  literal's conversion of \<open>message.type\<close> to a string does, since the own
  \<open>toString\<close> is not callable. Either rejects the promise that the sender awaits, and
  no response object is produced.
\<close>

theorem C10_null_message_counterexample:
  "handleMessage show_int offline_fetch JNull = Inl ''can't access property type of null''
   \<and> \<not> (\<exists>r. handleMessage show_int offline_fetch JNull = Inr r)
   \<and> handleMessage show_int offline_fetch (JObj [(''type'', JObj [(''toString'', JNum 5)])])
       = Inl ''can't convert object to string''
   \<and> \<not> (\<exists>r. handleMessage show_int offline_fetch (JObj [(''type'', JObj [(''toString'', JNum 5)])])
            = Inr r)"
  by (simp add: handleMessage_def)

section \<open>The retry loop of the API client\<close>

lemma from_success:
  "attempt \<le> maxRetries \<Longrightarrow> attempt_once env base64 attempt = Inr d \<Longrightarrow>
   sendImageToAPI_from env base64 maxRetries attempt lastError slept =
     \<lparr> outcome = Inr d, waits = slept, attempts = attempt \<rparr>"
  by (subst sendImageToAPI_from.simps) simp

lemma from_no_retry:
  "attempt \<le> maxRetries \<Longrightarrow> attempt_once env base64 attempt = Inl m \<Longrightarrow> no_retry m \<Longrightarrow>
   sendImageToAPI_from env base64 maxRetries attempt lastError slept =
     \<lparr> outcome = Inl m, waits = slept, attempts = attempt \<rparr>"
  by (subst sendImageToAPI_from.simps) simp

lemma from_retry:
  "attempt \<le> maxRetries \<Longrightarrow> attempt_once env base64 attempt = Inl m \<Longrightarrow> \<not> no_retry m \<Longrightarrow>
   sendImageToAPI_from env base64 maxRetries attempt lastError slept =
     sendImageToAPI_from env base64 maxRetries (attempt + 1) (Some m)
       (if attempt < maxRetries then slept @ [2 ^ (attempt - 1) * 1000] else slept)"
  by (subst sendImageToAPI_from.simps) simp

lemma from_exhausted:
  "maxRetries < attempt \<Longrightarrow>
   sendImageToAPI_from env base64 maxRetries attempt (Some m) slept =
     \<lparr> outcome = Inl (''API failed after '' @ show_nat maxRetries @ '' attempts: '' @ m),
       waits = slept, attempts = attempt - 1 \<rparr>"
  by (subst sendImageToAPI_from.simps) simp

lemma retryable_failureE:
  assumes "retryable_failure env base64 i"
  obtains m where "attempt_once env base64 i = Inl m" and "\<not> no_retry m"
  using assms by (auto simp: retryable_failure_def split: sum.splits)

lemma sendImageToAPI_from_stops:
  assumes "k \<le> maxRetries"
    and "stops (attempt_once env base64 k)"
  shows "a \<le> k \<Longrightarrow> \<forall>i. a \<le> i \<and> i < k \<longrightarrow> retryable_failure env base64 i \<Longrightarrow>
     sendImageToAPI_from env base64 maxRetries a lastError slept =
     \<lparr> outcome = attempt_once env base64 k,
       waits = slept @ map (\<lambda>i. 2 ^ (i - 1) * 1000) [a..<k], attempts = k \<rparr>"
proof (induction "k - a" arbitrary: a lastError slept)
  case 0
  then have eq: "a = k" by simp
  show ?case
  proof (cases "attempt_once env base64 k")
    case (Inl m)
    with assms have "no_retry m" by (simp add: stops_def)
    with Inl assms(1) eq show ?thesis by (simp add: from_no_retry)
  next
    case (Inr d)
    with assms(1) eq show ?thesis by (simp add: from_success)
  qed
next
  case (Suc n)
  then have lt: "a < k" by simp
  with assms(1) have le: "a < maxRetries" by simp
  from Suc.prems lt have "retryable_failure env base64 a" by simp
  then obtain m where m: "attempt_once env base64 a = Inl m" "\<not> no_retry m"
    by (rule retryable_failureE)
  have step: "sendImageToAPI_from env base64 maxRetries a lastError slept =
      sendImageToAPI_from env base64 maxRetries (a + 1) (Some m) (slept @ [2 ^ (a - 1) * 1000])"
    using m le by (simp add: from_retry)
  have "sendImageToAPI_from env base64 maxRetries (a + 1) (Some m) (slept @ [2 ^ (a - 1) * 1000]) =
     \<lparr> outcome = attempt_once env base64 k,
       waits = (slept @ [2 ^ (a - 1) * 1000]) @ map (\<lambda>i. 2 ^ (i - 1) * 1000) [a + 1..<k],
       attempts = k \<rparr>"
    using Suc.hyps(2) Suc.prems lt by (intro Suc.hyps(1)) simp_all
  with step lt show ?case
    by (simp add: upt_conv_Cons)
qed

lemma sendImageToAPI_from_exhausted:
  assumes "attempt_once env base64 maxRetries = Inl m"
  shows "a \<le> maxRetries \<Longrightarrow> \<forall>i. a \<le> i \<and> i \<le> maxRetries \<longrightarrow> retryable_failure env base64 i \<Longrightarrow>
     sendImageToAPI_from env base64 maxRetries a lastError slept =
     \<lparr> outcome = Inl (''API failed after '' @ show_nat maxRetries @ '' attempts: '' @ m),
       waits = slept @ map (\<lambda>i. 2 ^ (i - 1) * 1000) [a..<maxRetries], attempts = maxRetries \<rparr>"
proof (induction "maxRetries - a" arbitrary: a lastError slept)
  case 0
  then have eq: "a = maxRetries" by simp
  from 0 eq have "retryable_failure env base64 maxRetries" by simp
  with assms have "\<not> no_retry m"
    by (auto elim: retryable_failureE)
  with assms eq show ?case
    by (simp add: from_retry from_exhausted)
next
  case (Suc n)
  then have lt: "a < maxRetries" by simp
  from Suc.prems have "retryable_failure env base64 a" by simp
  then obtain e where e: "attempt_once env base64 a = Inl e" "\<not> no_retry e"
    by (rule retryable_failureE)
  have step: "sendImageToAPI_from env base64 maxRetries a lastError slept =
      sendImageToAPI_from env base64 maxRetries (a + 1) (Some e) (slept @ [2 ^ (a - 1) * 1000])"
    using e lt by (simp add: from_retry)
  have "sendImageToAPI_from env base64 maxRetries (a + 1) (Some e) (slept @ [2 ^ (a - 1) * 1000]) =
     \<lparr> outcome = Inl (''API failed after '' @ show_nat maxRetries @ '' attempts: '' @ m),
       waits = (slept @ [2 ^ (a - 1) * 1000]) @ map (\<lambda>i. 2 ^ (i - 1) * 1000) [a + 1..<maxRetries],
       attempts = maxRetries \<rparr>"
    using Suc.hyps(2) Suc.prems lt by (intro Suc.hyps(1)) simp_all
  with step lt show ?case
    by (simp add: upt_conv_Cons)
qed


lemma show_nat_3: "show_nat 3 = ''3''"
  by (simp add: show_nat.simps digit10_def)




lemma backoff_list:
  "1 \<le> k \<Longrightarrow> k \<le> 3 \<Longrightarrow> map (\<lambda>i. 2 ^ (i - 1) * 1000) [1..<k] = take (k - 1) [1000, 2000::nat]"
proof -
  assume "1 \<le> k" "k \<le> 3"
  then consider "k = 1" | "k = 2" | "k = 3" by linarith
  then show ?thesis
    by cases (simp_all add: upt_conv_Cons)
qed

lemma tiny_blob: "base64ToBlob (\<lambda>s. Inr s) tiny_payload = Inr (''image/jpeg'', ''AAAA'')"
  by (simp add: base64ToBlob_def tiny_payload_def)

lemma flaky_attempts:
  "attempt_once (flaky_api 3) tiny_payload 3 = Inr ''a cat''"
  "i < 3 \<Longrightarrow> retryable_failure (flaky_api 3) tiny_payload i"
  by (simp_all add: attempt_once_def flaky_api_def tiny_blob sendWithTimeout_def response_ok_def
      retryable_failure_def no_retry_def show_nat.simps digit10_def)

lemma down_attempts:
  "attempt_once down_api tiny_payload i = Inl ''Request timeout''"
  "retryable_failure down_api tiny_payload i"
  by (simp_all add: attempt_once_def down_api_def tiny_blob sendWithTimeout_def
      retryable_failure_def no_retry_def)


text \<open>
  Claim C5. With the default of three attempts: if attempts \<open>1..k-1\<close> fail with errors
  that the loop retries and attempt \<open>k \<le> 3\<close> succeeds, \<open>sendImageToAPI\<close> returns the
  description of attempt \<open>k\<close>, having slept \<open>2^(i-1)\<close> seconds after each failed
  attempt \<open>i\<close> (1000 ms after the first, 2000 ms after the second) and made \<open>k\<close>
  attempts. If all three attempts fail with errors that the loop retries, it fails with
  "API failed after 3 attempts: " followed by the message of the last error, having slept
  1000 ms and 2000 ms.
\<close>

theorem C5_retry_with_backoff:
  "(1 \<le> k \<and> k \<le> MAX_RETRIES
      \<and> (\<forall>i. 1 \<le> i \<and> i < k \<longrightarrow> retryable_failure env base64 i)
      \<and> attempt_once env base64 k = Inr d
    \<longrightarrow> sendImageToAPI env base64 MAX_RETRIES =
          \<lparr> outcome = Inr d, waits = map (\<lambda>i. 2 ^ (i - 1) * 1000) [1..<k], attempts = k \<rparr>
        \<and> waits (sendImageToAPI env base64 MAX_RETRIES) = take (k - 1) [1000, 2000])
   \<and> ((\<forall>i. 1 \<le> i \<and> i \<le> MAX_RETRIES \<longrightarrow> retryable_failure env base64 i)
      \<and> attempt_once env base64 MAX_RETRIES = Inl m
    \<longrightarrow> sendImageToAPI env base64 MAX_RETRIES =
          \<lparr> outcome = Inl (''API failed after 3 attempts: '' @ m),
            waits = [1000, 2000], attempts = 3 \<rparr>)"
proof (intro conjI impI)
  assume h: "1 \<le> k \<and> k \<le> MAX_RETRIES
      \<and> (\<forall>i. 1 \<le> i \<and> i < k \<longrightarrow> retryable_failure env base64 i)
      \<and> attempt_once env base64 k = Inr d"
  then have "stops (attempt_once env base64 k)" by (simp add: stops_def)
  with h have run: "sendImageToAPI env base64 MAX_RETRIES =
      \<lparr> outcome = attempt_once env base64 k,
        waits = [] @ map (\<lambda>i. 2 ^ (i - 1) * 1000) [1..<k], attempts = k \<rparr>"
    unfolding sendImageToAPI_def by (intro sendImageToAPI_from_stops) simp_all
  with h show "sendImageToAPI env base64 MAX_RETRIES =
      \<lparr> outcome = Inr d, waits = map (\<lambda>i. 2 ^ (i - 1) * 1000) [1..<k], attempts = k \<rparr>"
    by simp
  from h have "k \<le> 3" by (simp add: MAX_RETRIES_def)
  with h have "map (\<lambda>i. 2 ^ (i - 1) * 1000) [1..<k] = take (k - 1) [1000, 2000::nat]"
    by (intro backoff_list) simp_all
  with run show "waits (sendImageToAPI env base64 MAX_RETRIES) = take (k - 1) [1000, 2000]"
    by simp
next
  assume h: "(\<forall>i. 1 \<le> i \<and> i \<le> MAX_RETRIES \<longrightarrow> retryable_failure env base64 i)
      \<and> attempt_once env base64 MAX_RETRIES = Inl m"
  then have "sendImageToAPI env base64 MAX_RETRIES =
      \<lparr> outcome = Inl (''API failed after '' @ show_nat MAX_RETRIES @ '' attempts: '' @ m),
        waits = [] @ map (\<lambda>i. 2 ^ (i - 1) * 1000) [1..<MAX_RETRIES], attempts = MAX_RETRIES \<rparr>"
    unfolding sendImageToAPI_def
    by (intro sendImageToAPI_from_exhausted) (simp_all add: MAX_RETRIES_def)
  then show "sendImageToAPI env base64 MAX_RETRIES =
      \<lparr> outcome = Inl (''API failed after 3 attempts: '' @ m), waits = [1000, 2000], attempts = 3 \<rparr>"
    by (simp add: MAX_RETRIES_def show_nat_3 upt_conv_Cons)
qed

theorem C5_witness:
  "sendImageToAPI (flaky_api 3) tiny_payload MAX_RETRIES =
     \<lparr> outcome = Inr ''a cat'', waits = [1000, 2000], attempts = 3 \<rparr>
   \<and> sendImageToAPI down_api tiny_payload MAX_RETRIES =
     \<lparr> outcome = Inl ''API failed after 3 attempts: Request timeout'', waits = [1000, 2000],
       attempts = 3 \<rparr>"
  using C5_retry_with_backoff [of 3 "flaky_api 3" tiny_payload "''a cat''" "[]"]
    C5_retry_with_backoff [of 1 down_api tiny_payload "[]" "''Request timeout''"]
    flaky_attempts down_attempts
  by (simp add: MAX_RETRIES_def upt_conv_Cons)




section \<open>The request queue\<close>

subsection \<open>What a step does to the order, the counters and the timers\<close>

lemma start_times_append: "start_times (xs @ ys) = start_times xs @ start_times ys"
  by (induction xs rule: start_times.induct) simp_all

lemma started_process: "started (process q) @ queue (process q) = started q @ queue q"
  by (cases "queue q") (simp_all add: process_def started_def start_times_append Let_def)

lemma step_fifo:
  assumes "step e q = Some q'" and "e \<noteq> Clear"
  shows "started q' @ queue q' = started q @ queue q @ submitted [e]"
proof (cases e)
  case (Add tid)
  with assms have "q' = process (q\<lparr> queue := queue q @ [tid], total := total q + 1 \<rparr>)"
    by (simp add: add_def)
  then show ?thesis
    using Add by (simp add: started_process) (simp add: started_def)
next
  case (TaskSettles tid ok)
  with assms have q': "q' = process_settled tid ok q"
    by (simp split: if_splits)
  show ?thesis
  proof (cases "queue q")
    case Nil
    with q' TaskSettles show ?thesis
      by (simp add: process_settled_def Let_def process_def started_def start_times_append)
  next
    case (Cons x xs)
    with q' TaskSettles show ?thesis
      by (simp add: process_settled_def Let_def started_def start_times_append)
  qed
next
  case (Elapse d)
  with assms show ?thesis by (auto simp: started_def)
next
  case (TimerFires k)
  with assms have "q' = process (q\<lparr> sleepers := take k (sleepers q) @ drop (Suc k) (sleepers q) \<rparr>)"
    by (simp add: process_woken_def split: if_splits)
  then show ?thesis
    using TimerFires by (simp add: started_process) (simp add: started_def)
next
  case Clear
  with assms show ?thesis by simp
qed

lemma run_fifo:
  "run evs q = Some q' \<Longrightarrow> Clear \<notin> set evs \<Longrightarrow>
   started q' @ queue q' = started q @ queue q @ submitted evs"
proof (induction evs arbitrary: q)
  case Nil
  then show ?case by simp
next
  case (Cons e es)
  then obtain q1 where q1: "step e q = Some q1" and rest: "run es q1 = Some q'"
    by (auto split: option.splits)
  from Cons.prems have "e \<noteq> Clear" and "Clear \<notin> set es" by auto
  with step_fifo [OF q1] Cons.IH [OF rest]
  have "started q' @ queue q' = started q @ queue q @ submitted [e] @ submitted es"
    by simp
  moreover have "submitted [e] @ submitted es = submitted (e # es)"
    by (cases e) simp_all
  ultimately show ?case by simp
qed

lemma process_fields [simp]:
  "concurrency (process q) = concurrency q" "delayMs (process q) = delayMs q"
  "total (process q) = total q" "success (process q) = success q" "failed (process q) = failed q"
  "sleepers (process q) = sleepers q" "clock (process q) = clock q"
  by (simp_all add: process_def Let_def)

lemma process_accounted: "accounted q \<Longrightarrow> accounted (process q)"
  by (auto simp: accounted_def process_def Let_def)

lemma process_balanced: "balanced q \<Longrightarrow> balanced (process q)"
  by (cases "queue q") (auto simp: balanced_def process_def Let_def)

lemma length_remove1_int: "x \<in> set xs \<Longrightarrow> int (length (remove1 x xs)) = int (length xs) - 1"
  by (induction xs) auto

lemma step_accounted:
  assumes "step e q = Some q'" and "accounted q"
  shows "accounted q'"
proof (cases e)
  case (Add tid)
  from assms(2) have "accounted (q\<lparr> queue := queue q @ [tid], total := total q + 1 \<rparr>)"
    by (simp add: accounted_def)
  then have "accounted (add tid q)"
    unfolding add_def by (rule process_accounted)
  with assms(1) Add show ?thesis
    by simp
next
  case (TaskSettles tid ok)
  with assms(1) have mem: "tid \<in> set (running q)" and q': "q' = process_settled tid ok q"
    by (simp_all split: if_splits)
  define q2 where "q2 = (if ok then q\<lparr> success := success q + 1 \<rparr> else q\<lparr> failed := failed q + 1 \<rparr>)
      \<lparr> active := active q - 1, running := remove1 tid (running q),
        trace := trace q @ [Settled tid ok (clock q) (length (queue q) > 0)] \<rparr>"
  have acc2: "accounted q2"
    using assms(2) mem by (auto simp: q2_def accounted_def length_remove1_int)
  have "q' = (if length (queue q2) > 0 then q2\<lparr> sleepers := sleepers q2 @ [clock q2 + delayMs q2] \<rparr>
      else process q2)"
    unfolding q' process_settled_def q2_def by (simp add: Let_def)
  with acc2 show ?thesis
    by (auto simp: process_accounted) (simp add: accounted_def)
next
  case (Elapse d)
  with assms show ?thesis by (auto simp: accounted_def)
next
  case (TimerFires k)
  from assms(2) have "accounted (q\<lparr> sleepers := take k (sleepers q) @ drop (Suc k) (sleepers q) \<rparr>)"
    by (simp add: accounted_def)
  then have "accounted (process_woken k q)"
    unfolding process_woken_def by (rule process_accounted)
  with assms(1) TimerFires show ?thesis
    by (auto split: if_splits)
next
  case Clear
  with assms show ?thesis by (auto simp: accounted_def clear_def)
qed

lemma step_balanced:
  assumes "step e q = Some q'" and "balanced q" and "e \<noteq> Clear"
  shows "balanced q'"
proof (cases e)
  case (Add tid)
  from assms(2) have "balanced (q\<lparr> queue := queue q @ [tid], total := total q + 1 \<rparr>)"
    by (simp add: balanced_def)
  then have "balanced (add tid q)"
    unfolding add_def by (rule process_balanced)
  with assms(1) Add show ?thesis
    by simp
next
  case (TaskSettles tid ok)
  with assms(1) have q': "q' = process_settled tid ok q"
    by (simp_all split: if_splits)
  define q2 where "q2 = (if ok then q\<lparr> success := success q + 1 \<rparr> else q\<lparr> failed := failed q + 1 \<rparr>)
      \<lparr> active := active q - 1, running := remove1 tid (running q),
        trace := trace q @ [Settled tid ok (clock q) (length (queue q) > 0)] \<rparr>"
  have bal2: "balanced q2"
    using assms(2) by (auto simp: q2_def balanced_def)
  have "q' = (if length (queue q2) > 0 then q2\<lparr> sleepers := sleepers q2 @ [clock q2 + delayMs q2] \<rparr>
      else process q2)"
    unfolding q' process_settled_def q2_def by (simp add: Let_def)
  with bal2 show ?thesis
    by (auto simp: process_balanced) (simp add: balanced_def)
next
  case (Elapse d)
  with assms show ?thesis by (auto simp: balanced_def)
next
  case (TimerFires k)
  from assms(2) have "balanced (q\<lparr> sleepers := take k (sleepers q) @ drop (Suc k) (sleepers q) \<rparr>)"
    by (simp add: balanced_def)
  then have "balanced (process_woken k q)"
    unfolding process_woken_def by (rule process_balanced)
  with assms(1) TimerFires show ?thesis
    by (auto split: if_splits)
next
  case Clear
  with assms show ?thesis by simp
qed

lemma step_counts:
  assumes "step e q = Some q'"
  shows "total q' = total q + int (length (submitted [e]))
       \<and> success q' = success q + int (count_settled True [e])
       \<and> failed q' = failed q + int (count_settled False [e])
       \<and> concurrency q' = concurrency q \<and> delayMs q' = delayMs q"
  using assms
  by (cases e) (auto simp: add_def process_settled_def process_woken_def clear_def Let_def split: if_splits)

lemma submitted_Cons: "submitted (e # es) = submitted [e] @ submitted es"
  by (cases e) simp_all

lemma count_settled_Cons: "count_settled ok (e # es) = count_settled ok [e] + count_settled ok es"
  by (cases e) simp_all

lemma run_Cons_Some:
  assumes "run (e # es) q = Some q'"
  obtains q1 where "step e q = Some q1" and "run es q1 = Some q'"
  using assms by (auto split: option.splits)

lemma run_accounted: "run evs q = Some q' \<Longrightarrow> accounted q \<Longrightarrow> accounted q'"
proof (induction evs arbitrary: q)
  case Nil
  then show ?case by simp
next
  case (Cons e es)
  from Cons.prems(1) obtain q1 where "step e q = Some q1" and "run es q1 = Some q'"
    by (rule run_Cons_Some)
  with Cons.IH Cons.prems(2) show ?case
    by (blast intro: step_accounted)
qed

lemma run_balanced:
  "run evs q = Some q' \<Longrightarrow> balanced q \<Longrightarrow> Clear \<notin> set evs \<Longrightarrow> balanced q'"
proof (induction evs arbitrary: q)
  case Nil
  then show ?case by simp
next
  case (Cons e es)
  from Cons.prems(1) obtain q1 where q1: "step e q = Some q1" and rest: "run es q1 = Some q'"
    by (rule run_Cons_Some)
  from Cons.prems(3) have "e \<noteq> Clear" and "Clear \<notin> set es" by auto
  with step_balanced [OF q1 Cons.prems(2)] Cons.IH [OF rest] show ?case
    by simp
qed

lemma run_counts:
  "run evs q = Some q' \<Longrightarrow>
   total q' = total q + int (length (submitted evs))
   \<and> success q' = success q + int (count_settled True evs)
   \<and> failed q' = failed q + int (count_settled False evs)
   \<and> concurrency q' = concurrency q \<and> delayMs q' = delayMs q"
proof (induction evs arbitrary: q)
  case Nil
  then show ?case by simp
next
  case (Cons e es)
  from Cons.prems obtain q1 where q1: "step e q = Some q1" and rest: "run es q1 = Some q'"
    by (rule run_Cons_Some)
  from step_counts [OF q1] Cons.IH [OF rest] show ?case
    by (simp add: submitted_Cons [of e es] count_settled_Cons [of _ e es] del: submitted.simps count_settled.simps)
qed

lemma RequestQueue_initial:
  "accounted (RequestQueue c d)" "balanced (RequestQueue c d)"
  "started (RequestQueue c d) = []" "queue (RequestQueue c d) = []"
  by (simp_all add: accounted_def balanced_def RequestQueue_def started_def)

lemma process_starts:
  "\<exists>new. start_times (trace (process q)) = start_times (trace q) @ new
         \<and> (\<forall>x\<in>set new. clock q \<le> snd x)"
  by (simp add: process_def Let_def start_times_append)

lemma step_paced:
  assumes "step e q = Some q'" and "submitted [e] = []"
    and "\<forall>d\<in>set (sleepers q). T \<le> d" and "T \<le> clock q + delayMs q"
  shows "(\<forall>d\<in>set (sleepers q'). T \<le> d) \<and> T \<le> clock q' + delayMs q'
       \<and> (\<exists>new. start_times (trace q') = start_times (trace q) @ new \<and> (\<forall>x\<in>set new. T \<le> snd x))"
proof (cases e)
  case (Add tid)
  with assms(2) show ?thesis by simp
next
  case (TaskSettles tid ok)
  with assms(1) have q': "q' = process_settled tid ok q"
    by (simp split: if_splits)
  show ?thesis
  proof (cases "queue q")
    case Nil
    with q' assms(3,4) show ?thesis
      by (simp add: process_settled_def Let_def process_def start_times_append)
  next
    case (Cons x xs)
    with q' assms(3,4) show ?thesis
      by (simp add: process_settled_def Let_def start_times_append)
  qed
next
  case (Elapse d)
  with assms show ?thesis by auto
next
  case (TimerFires k)
  with assms(1) have k: "k < length (sleepers q)" "sleepers q ! k \<le> clock q"
    and q': "q' = process (q\<lparr> sleepers := take k (sleepers q) @ drop (Suc k) (sleepers q) \<rparr>)"
    by (simp_all add: process_woken_def split: if_splits)
  from k(1) assms(3) have "T \<le> sleepers q ! k" by simp
  with k(2) have now: "T \<le> clock q" by simp
  have rest: "\<forall>d\<in>set (take k (sleepers q) @ drop (Suc k) (sleepers q)). T \<le> d"
    using assms(3) by (auto dest: in_set_takeD in_set_dropD)
  obtain new where new: "start_times (trace q') = start_times (trace q) @ new"
      "\<forall>x\<in>set new. clock q \<le> snd x"
    using process_starts [of "q\<lparr> sleepers := take k (sleepers q) @ drop (Suc k) (sleepers q) \<rparr>"]
    unfolding q' by auto
  from new(2) now have "\<forall>x\<in>set new. T \<le> snd x" by auto
  with new(1) rest assms(4) show ?thesis
    unfolding q' by simp
next
  case Clear
  with assms show ?thesis by (auto simp: clear_def)
qed

lemma run_paced:
  "run evs q = Some q' \<Longrightarrow> submitted evs = [] \<Longrightarrow>
   \<forall>d\<in>set (sleepers q). T \<le> d \<Longrightarrow> T \<le> clock q + delayMs q \<Longrightarrow>
   \<exists>new. start_times (trace q') = start_times (trace q) @ new \<and> (\<forall>x\<in>set new. T \<le> snd x)"
proof (induction evs arbitrary: q)
  case Nil
  then show ?case by simp
next
  case (Cons e es)
  from Cons.prems(1) obtain q1 where q1: "step e q = Some q1" and rest: "run es q1 = Some q'"
    by (rule run_Cons_Some)
  from Cons.prems(2) have none: "submitted [e] = []" "submitted es = []"
    by (simp_all add: submitted_Cons [of e es] del: submitted.simps)
  from step_paced [OF q1 none(1) Cons.prems(3,4)]
  obtain new1 where s1: "\<forall>d\<in>set (sleepers q1). T \<le> d" "T \<le> clock q1 + delayMs q1"
      "start_times (trace q1) = start_times (trace q) @ new1" "\<forall>x\<in>set new1. T \<le> snd x"
    by blast
  from Cons.IH [OF rest none(2) s1(1,2)]
  obtain new2 where s2: "start_times (trace q') = start_times (trace q1) @ new2"
      "\<forall>x\<in>set new2. T \<le> snd x"
    by blast
  from s1(3,4) s2 have "start_times (trace q') = start_times (trace q) @ (new1 @ new2)
      \<and> (\<forall>x\<in>set (new1 @ new2). T \<le> snd x)"
    by auto
  then show ?case by blast
qed

subsection \<open>The example runs\<close>

lemma fifo_run_result:
  "run fifo_run (RequestQueue 1 500) =
     Some \<lparr> concurrency = 1, delayMs = 500, queue = [3], active = 1, total = 3, success = 1,
            failed = 0, running = [2], sleepers = [], clock = 540,
            trace = [Started 1 0, Settled 1 True 40 True, Started 2 540] \<rparr>"
  by (simp add: fifo_run_def RequestQueue_def add_def process_def process_settled_def
      process_woken_def Let_def)

lemma full_run_result:
  "run full_run (RequestQueue 1 500) =
     Some \<lparr> concurrency = 1, delayMs = 500, queue = [], active = 0, total = 2, success = 1,
            failed = 1, running = [], sleepers = [], clock = 570,
            trace = [Started 1 0, Settled 1 True 40 True, Started 2 540, Settled 2 False 570 False] \<rparr>"
  by (simp add: full_run_def RequestQueue_def add_def process_def process_settled_def
      process_woken_def Let_def)

lemma burst_by_add_result:
  "run burst_by_add (RequestQueue MAX_CONCURRENT_REQUESTS BATCH_DELAY_MS) =
     Some \<lparr> concurrency = 3, delayMs = 500, queue = [5], active = 3, total = 5, success = 1,
            failed = 0, running = [2, 3, 4], sleepers = [600], clock = 110,
            trace = [Started 1 0, Started 2 0, Started 3 0, Settled 1 True 100 True,
                     Started 4 110] \<rparr>"
  by (simp add: burst_by_add_def RequestQueue_def add_def process_def process_settled_def
      process_woken_def Let_def MAX_CONCURRENT_REQUESTS_def BATCH_DELAY_MS_def)

lemma burst_by_timer_result:
  "run burst_by_timer (RequestQueue MAX_CONCURRENT_REQUESTS BATCH_DELAY_MS) =
     Some \<lparr> concurrency = 3, delayMs = 500, queue = [5], active = 2, total = 5, success = 2,
            failed = 0, running = [3, 4], sleepers = [1099], clock = 600,
            trace = [Started 1 0, Started 2 0, Started 3 0, Settled 1 True 100 True,
                     Settled 2 True 599 True, Started 4 600] \<rparr>"
  by (simp add: burst_by_timer_def RequestQueue_def add_def process_def process_settled_def
      process_woken_def Let_def MAX_CONCURRENT_REQUESTS_def BATCH_DELAY_MS_def)

lemma busy_queue_run:
  "run [Add 1, Add 2, Elapse 40] (RequestQueue 1 500) = Some busy_queue"
  "step (TaskSettles 1 True) busy_queue =
     Some (busy_queue\<lparr> active := 0, success := 1, running := [], sleepers := [540],
                       trace := [Started 1 0, Settled 1 True 40 True] \<rparr>)"
  "run [Elapse 500, TimerFires 0]
     (busy_queue\<lparr> active := 0, success := 1, running := [], sleepers := [540],
                  trace := [Started 1 0, Settled 1 True 40 True] \<rparr>) =
     Some (busy_queue\<lparr> queue := [], active := 1, success := 1, running := [2], sleepers := [],
                       clock := 540,
                       trace := [Started 1 0, Settled 1 True 40 True, Started 2 540] \<rparr>)"
  by (simp_all add: busy_queue_def RequestQueue_def add_def process_def process_settled_def
      process_woken_def Let_def)

subsection \<open>FIFO dispatch start\<close>

text \<open>
  Claim C3. Take a queue of concurrency 1 and any sequence of events without \<open>clear()\<close>
  that can happen to it. The thunks called so far, in the order of their calls, followed
  by the tasks still queued, are the tasks submitted, in the order of their submission:
  the \<open>j\<close>-th thunk to be called is the \<open>j\<close>-th task submitted, so a task's thunk is
  called before the thunk of every task submitted after it. At most one task runs at a
  time, so with concurrency 1 a thunk is called only when the tasks before it have
  settled; nothing is said about the order in which tasks of a wider queue settle.
\<close>

theorem C3_fifo_dispatch_start:
  assumes "run evs (RequestQueue 1 d) = Some q" and "Clear \<notin> set evs"
  shows "started q @ queue q = submitted evs
       \<and> (\<forall>j. j < length (started q) \<longrightarrow> started q ! j = submitted evs ! j)
       \<and> length (running q) \<le> 1"
proof -
  from run_fifo [OF assms] have fifo: "started q @ queue q = submitted evs"
    by (simp add: RequestQueue_initial)
  then have "\<forall>j. j < length (started q) \<longrightarrow> started q ! j = submitted evs ! j"
    by (metis nth_append)
  moreover from run_accounted [OF assms(1) RequestQueue_initial(1)] run_counts [OF assms(1)]
  have "length (running q) \<le> 1"
    by (simp add: accounted_def RequestQueue_def)
  ultimately show ?thesis using fifo by simp
qed

theorem C3_witness:
  "started (the (run fifo_run (RequestQueue 1 500))) = [1, 2]
   \<and> queue (the (run fifo_run (RequestQueue 1 500))) = [3]
   \<and> started (the (run fifo_run (RequestQueue 1 500))) @ queue (the (run fifo_run (RequestQueue 1 500)))
       = submitted fifo_run"
proof -
  have "Clear \<notin> set fifo_run" by (simp add: fifo_run_def)
  from C3_fifo_dispatch_start [OF fifo_run_result this] show ?thesis
    by (simp add: fifo_run_result started_def)
qed

subsection \<open>Statistics\<close>

text \<open>
  Claim C9. After a sequence of events with \<open>N\<close> calls of \<open>add\<close>, \<open>S\<close> tasks settled
  with success and \<open>F\<close> with failure, with nothing queued and nothing active,
  \<open>getStats()\<close> is \<open>{total: N, success: S, failed: F, queued: 0, active: 0}\<close>; and where
  \<open>clear()\<close> was not called, \<open>S + F = N\<close>.
\<close>

theorem C9_stats_consistency:
  assumes "run evs (RequestQueue c d) = Some q" and "queue q = []" and "active q = 0"
  shows "getStats q =
           JObj [(''total'', JNum (int (length (submitted evs)))),
                 (''success'', JNum (int (count_settled True evs))),
                 (''failed'', JNum (int (count_settled False evs))),
                 (''queued'', JNum 0), (''active'', JNum 0)]
       \<and> (Clear \<notin> set evs \<longrightarrow>
            count_settled True evs + count_settled False evs = length (submitted evs))"
proof -
  from run_counts [OF assms(1)] assms(2,3) have stats: "getStats q =
           JObj [(''total'', JNum (int (length (submitted evs)))),
                 (''success'', JNum (int (count_settled True evs))),
                 (''failed'', JNum (int (count_settled False evs))),
                 (''queued'', JNum 0), (''active'', JNum 0)]"
    by (simp add: getStats_def RequestQueue_def)
  have "count_settled True evs + count_settled False evs = length (submitted evs)"
    if "Clear \<notin> set evs"
  proof -
    from run_balanced [OF assms(1) RequestQueue_initial(2) that] have "balanced q" .
    with run_counts [OF assms(1)] assms(2,3)
    have "int (length (submitted evs)) = int (count_settled True evs) + int (count_settled False evs)"
      by (simp add: balanced_def RequestQueue_def)
    then show ?thesis by linarith
  qed
  with stats show ?thesis by simp
qed

theorem C9_witness:
  "getStats (the (run full_run (RequestQueue 1 500))) =
     JObj [(''total'', JNum 2), (''success'', JNum 1), (''failed'', JNum 1),
           (''queued'', JNum 0), (''active'', JNum 0)]"
proof -
  have "Clear \<notin> set full_run" by (simp add: full_run_def)
  with C9_stats_consistency [OF full_run_result] show ?thesis
    by (simp add: full_run_result) (simp add: full_run_def)
qed

subsection \<open>Pacing\<close>

text \<open>
  Claim C6, as amended: when the promise of a dispatched task settles while the pending
  queue is non-empty, the call of \<open>process\<close> that ran the task starts no pending task
  at that moment: it leaves the queue as it is and sets a timer of \<open>delayMs\<close>
  milliseconds before its next dispatch attempt. If no timer of an earlier completion is
  still pending with an earlier deadline and no task is added afterwards, then no thunk is
  called before \<open>delayMs\<close> milliseconds have elapsed after that completion.
\<close>

theorem C6_pacing_of_the_completing_step:
  assumes "step (TaskSettles tid ok) q = Some q1" and "queue q \<noteq> []"
  shows "start_times (trace q1) = start_times (trace q)
       \<and> queue q1 = queue q
       \<and> sleepers q1 = sleepers q @ [clock q + delayMs q]
       \<and> ((\<forall>d\<in>set (sleepers q). clock q + delayMs q \<le> d) \<and> submitted evs = []
            \<and> run evs q1 = Some q2
          \<longrightarrow> (\<exists>new. start_times (trace q2) = start_times (trace q) @ new
                   \<and> (\<forall>x\<in>set new. clock q + delayMs q \<le> snd x)))"
proof -
  from assms(1) have q1: "q1 = process_settled tid ok q"
    by (simp split: if_splits)
  with assms(2) have now: "start_times (trace q1) = start_times (trace q)" "queue q1 = queue q"
      "sleepers q1 = sleepers q @ [clock q + delayMs q]"
      "clock q1 = clock q" "delayMs q1 = delayMs q"
    by (simp_all add: process_settled_def Let_def start_times_append)
  have "\<exists>new. start_times (trace q2) = start_times (trace q) @ new
                   \<and> (\<forall>x\<in>set new. clock q + delayMs q \<le> snd x)"
    if h: "(\<forall>d\<in>set (sleepers q). clock q + delayMs q \<le> d) \<and> submitted evs = []
            \<and> run evs q1 = Some q2"
  proof -
    from h now have "\<forall>d\<in>set (sleepers q1). clock q + delayMs q \<le> d"
      and "clock q + delayMs q \<le> clock q1 + delayMs q1"
      by simp_all
    with h run_paced [of evs q1 q2 "clock q + delayMs q"] now(1) show ?thesis
      by simp
  qed
  with now show ?thesis by blast
qed

theorem C6_witness:
  "run [Add 1, Add 2, Elapse 40] (RequestQueue 1 500) = Some busy_queue
   \<and> (\<exists>q1 q2. step (TaskSettles 1 True) busy_queue = Some q1
         \<and> run [Elapse 500, TimerFires 0] q1 = Some q2
         \<and> start_times (trace q1) = [(1, 0)]
         \<and> sleepers q1 = [540]
         \<and> start_times (trace q2) = [(1, 0), (2, 540)]
         \<and> (\<exists>new. start_times (trace q2) = start_times (trace busy_queue) @ new
                 \<and> (\<forall>x\<in>set new. 540 \<le> snd x)))"
proof -
  let ?q1 = "busy_queue\<lparr> active := 0, success := 1, running := [], sleepers := [540],
                         trace := [Started 1 0, Settled 1 True 40 True] \<rparr>"
  let ?q2 = "busy_queue\<lparr> queue := [], active := 1, success := 1, running := [2], sleepers := [],
                         clock := 540,
                         trace := [Started 1 0, Settled 1 True 40 True, Started 2 540] \<rparr>"
  have pending: "queue busy_queue \<noteq> []"
    and quiet: "\<forall>d\<in>set (sleepers busy_queue). clock busy_queue + delayMs busy_queue \<le> d"
    and none: "submitted [Elapse 500, TimerFires 0] = []"
    and deadline: "clock busy_queue + delayMs busy_queue = 540"
    by (simp_all add: busy_queue_def)
  from C6_pacing_of_the_completing_step [OF busy_queue_run(2) pending,
      of "[Elapse 500, TimerFires 0]" ?q2] quiet none busy_queue_run(3)
  have "\<exists>new. start_times (trace ?q2) = start_times (trace busy_queue) @ new
          \<and> (\<forall>x\<in>set new. clock busy_queue + delayMs busy_queue \<le> snd x)"
    by blast
  then have late: "\<exists>new. start_times (trace ?q2) = start_times (trace busy_queue) @ new
          \<and> (\<forall>x\<in>set new. 540 \<le> snd x)"
    unfolding deadline .
  have shape: "start_times (trace ?q1) = [(1, 0)]" "sleepers ?q1 = [540]"
      "start_times (trace ?q2) = [(1, 0), (2, 540)]"
    by simp_all
  from busy_queue_run(2,3) shape late
  have "\<exists>q1 q2. step (TaskSettles 1 True) busy_queue = Some q1
         \<and> run [Elapse 500, TimerFires 0] q1 = Some q2
         \<and> start_times (trace q1) = [(1, 0)]
         \<and> sleepers q1 = [540]
         \<and> start_times (trace q2) = [(1, 0), (2, 540)]
         \<and> (\<exists>new. start_times (trace q2) = start_times (trace busy_queue) @ new
                 \<and> (\<forall>x\<in>set new. 540 \<le> snd x))"
    by blast
  with busy_queue_run(1) show ?thesis ..
qed

text \<open>
  Claim C6 as stated fails in the default configuration (concurrency 3, delay 500 ms).
  In the first run task 1 settles at time 100 while task 4 is queued; a fifth task is
  added at time 110, and \<open>add\<close> calls \<open>process\<close>, which finds a free slot and calls the
  thunk of task 4 at once, 10 ms after the completion. In the second run task 1 settles
  at time 100 and task 2 at time 599, each with work queued; the timer of the first
  completion fires at time 600 and the thunk of task 4 is called 1 ms after the second
  completion.
\<close>

theorem C6_burst_counterexample:
  "map_option trace (run burst_by_add (RequestQueue MAX_CONCURRENT_REQUESTS BATCH_DELAY_MS))
     = Some [Started 1 0, Started 2 0, Started 3 0, Settled 1 True 100 True, Started 4 110]
   \<and> \<not> paced BATCH_DELAY_MS
         [Started 1 0, Started 2 0, Started 3 0, Settled 1 True 100 True, Started 4 110]
   \<and> map_option trace (run burst_by_timer (RequestQueue MAX_CONCURRENT_REQUESTS BATCH_DELAY_MS))
     = Some [Started 1 0, Started 2 0, Started 3 0, Settled 1 True 100 True,
             Settled 2 True 599 True, Started 4 600]
   \<and> \<not> paced BATCH_DELAY_MS
         [Started 1 0, Started 2 0, Started 3 0, Settled 1 True 100 True,
          Settled 2 True 599 True, Started 4 600]"
  by (simp add: burst_by_add_result burst_by_timer_result) (simp add: BATCH_DELAY_MS_def)

end
